theory Spec2Isabelle
  imports Main "HOL-Library.Word"
begin

section \<open>The disk-backed multimap \<open>dmultimap\<close> of seqwish (src/dmultimap.hpp)\<close>

text \<open>
  The class template \<open>dmultimap\<close> (parameters \<open>Key\<close> and \<open>Value\<close>) keeps fixed-width
  (key, value) records in a binary file. The model works on the bytes of that file, because
  the scans of \<open>pad\<close> and \<open>index\<close> are written in terms of byte reads of \<open>sizeof(Key)\<close> and
  \<open>sizeof(Value)\<close>.

  \<^item> \<open>Key\<close> is an unsigned integer type of \<open>LENGTH('k)\<close> bits, a \<open>'k word\<close>; it is stored
    in host byte order, taken to be little-endian.
  \<^item> \<open>Value\<close> is a plain byte string of \<open>sizeof(Value)\<close> bytes; that size is the length of
    the member \<open>nullvalue\<close>.
  \<^item> The object's members and the two files it works on (the data file and the index
    file) are one record. A nonempty \<open>filename\<close> is taken to name a file that can be opened;
    opening the empty name fails.
  \<^item> \<open>std::ofstream\<close> buffers its output: bytes written through \<open>writer\<close> are pending
    until the stream is closed (\<open>close_writer\<close>) or repositioned (\<open>seekp\<close> in
    \<open>open_writer\<close>); only then are they part of the file that \<open>reader\<close> and the sorter
    see. The buffer is taken to be large enough for the pending bytes.
  \<^item> A failed \<open>assert\<close> is the error \<open>AssertionFailed\<close>. A read that does not get its
    bytes leaves its destination as it was, which is uninitialised wherever such a read can
    happen (\<open>nth_key\<close>, \<open>nth_value\<close>, the first read of \<open>index\<close> on an empty file); the
    model stops there with \<open>ReadFailed\<close>. The reads inside the loops of \<open>pad\<close> and
    \<open>index\<close> stay inside the file (lemmas \<open>pad_loop_reads\<close>, \<open>index_loop_reads\<close>).
    An uninitialised local that the source reads on a path without any failed read (\<open>i\<close> in
    \<open>init\<close>, \<open>curr\<close> in \<open>index\<close>) is a parameter of the model: the value the variable
    happens to hold.
\<close>

type_synonym byte = "8 word"

datatype error =
    AssertionFailed
  | ReadFailed
  | SelectOutOfRange
  | IndexOutOfBounds
  | DivisionByZero

text \<open>What \<open>save\<close> writes to the index file, field by field.\<close>

record 'key index_contents =
  ix_magic :: string
  ix_version :: "32 word"
  ix_record_size :: nat
  ix_n_records :: nat
  ix_max_key :: "'key"
  ix_key_cbv :: "bool list"

record 'key dmultimap =
  data_file :: "byte list"
  index_file :: "'key index_contents option"
  writer :: "byte list option"
  reader :: "nat option"
  filename :: string
  index_filename :: string
  is_sorted :: bool
  record_size :: nat
  max_key :: "'key"
  nullkey :: "'key"
  nullvalue :: "byte list"
  key_cbv :: "bool list"
  indexed :: bool

definition OUTPUT_VERSION :: "32 word" where
  "OUTPUT_VERSION = 1"

subsection \<open>Keys and values as bytes\<close>

definition sizeof_Key :: "'k::len word \<Rightarrow> nat" where
  "sizeof_Key k = (size k + 7) div 8"

definition sizeof_Value :: "'k::len word dmultimap \<Rightarrow> nat" where
  "sizeof_Value s = length (nullvalue s)"

definition bytes_of_key :: "'k::len word \<Rightarrow> byte list" where
  "bytes_of_key k = map (\<lambda>i. of_nat (unat k div 256 ^ i)) [0..<sizeof_Key k]"

definition nat_of_bytes :: "byte list \<Rightarrow> nat" where
  "nat_of_bytes bs = foldr (\<lambda>b n. unat b + 256 * n) bs 0"

definition key_of_bytes :: "byte list \<Rightarrow> 'k::len word" where
  "key_of_bytes bs = of_nat (nat_of_bytes bs)"

subsection \<open>Construction\<close>

text \<open>
  \<^verbatim>\<open>for (size_t i; i < sizeof(Value); ++i) ((uint8_t*)&nullvalue)[i] = 0;\<close>
  The loop variable has no initialiser: the loop starts at whatever \<open>i\<close> holds.
\<close>

function init_loop :: "nat \<Rightarrow> byte list \<Rightarrow> byte list" where
  "init_loop i nv = (if i < length nv then init_loop (Suc i) (nv[i := 0]) else nv)"
  by pat_completeness auto
termination
  by (relation "measure (\<lambda>(i, nv). length nv - i)") auto

definition init :: "nat \<Rightarrow> 'k::len word dmultimap \<Rightarrow> 'k word dmultimap" where
  "init i0 s =
     s\<lparr>record_size := sizeof_Key (max_key s) + sizeof_Value s,
       nullkey := 0,
       nullvalue := init_loop i0 (nullvalue s)\<rparr>"

text \<open>
  The constructor \<open>dmultimap(f)\<close>: the members' default initialisers, then \<open>init\<close>.
  \<open>nk0\<close> and \<open>nv0\<close> are what the storage of \<open>nullkey\<close> and \<open>nullvalue\<close> holds before,
  \<open>i0\<close> what the loop variable of \<open>init\<close> holds; \<open>d\<close> and \<open>ix\<close> are the files on disk.
  The default constructor is the case \<open>f = []\<close>.
\<close>

definition dmultimap_new ::
  "string \<Rightarrow> nat \<Rightarrow> 'k::len word \<Rightarrow> byte list \<Rightarrow> byte list \<Rightarrow> 'k word index_contents option
     \<Rightarrow> 'k word dmultimap" where
  "dmultimap_new f i0 nk0 nv0 d ix =
     init i0
       \<lparr>data_file = d, index_file = ix, writer = None, reader = None,
        filename = f, index_filename = [], is_sorted = False, record_size = 0,
        max_key = 0, nullkey = nk0, nullvalue = nv0, key_cbv = [], indexed = False\<rparr>"

subsection \<open>File handles\<close>

definition set_base_filename :: "string \<Rightarrow> 'k::len word dmultimap \<Rightarrow> 'k word dmultimap" where
  "set_base_filename f s = s\<lparr>filename := f, index_filename := f @ ''.idx''\<rparr>"

definition open_writer :: "'k::len word dmultimap \<Rightarrow> error + 'k word dmultimap" where
  "open_writer s =
     (case writer s of
        Some pending \<Rightarrow> Inr (s\<lparr>data_file := data_file s @ pending, writer := Some []\<rparr>)
      | None \<Rightarrow>
          if filename s = [] then Inl AssertionFailed
          else Inr (s\<lparr>writer := Some []\<rparr>))"

definition open_writer_named :: "string \<Rightarrow> 'k::len word dmultimap \<Rightarrow> error + 'k word dmultimap" where
  "open_writer_named f s = open_writer (set_base_filename f s)"

definition open_reader :: "'k::len word dmultimap \<Rightarrow> error + 'k word dmultimap" where
  "open_reader s =
     (case reader s of
        Some pos \<Rightarrow> Inr (s\<lparr>reader := Some 0\<rparr>)
      | None \<Rightarrow>
          if filename s = [] then Inl AssertionFailed
          else Inr (s\<lparr>reader := Some 0\<rparr>))"

definition close_writer :: "'k::len word dmultimap \<Rightarrow> 'k word dmultimap" where
  "close_writer s =
     (case writer s of
        Some pending \<Rightarrow> s\<lparr>data_file := data_file s @ pending, writer := None\<rparr>
      | None \<Rightarrow> s)"

definition close_reader :: "'k::len word dmultimap \<Rightarrow> 'k word dmultimap" where
  "close_reader s = s\<lparr>reader := None\<rparr>"

text \<open>\<open>reader.seekg(pos)\<close> and \<open>reader.read(dst, n)\<close>; a closed stream does neither.\<close>

definition seekg :: "nat \<Rightarrow> 'k::len word dmultimap \<Rightarrow> 'k word dmultimap" where
  "seekg pos s = s\<lparr>reader := map_option (\<lambda>p. pos) (reader s)\<rparr>"

definition read_bytes :: "nat \<Rightarrow> 'k::len word dmultimap \<Rightarrow> (byte list \<times> 'k word dmultimap) option" where
  "read_bytes n s =
     (case reader s of
        None \<Rightarrow> None
      | Some p \<Rightarrow>
          if p + n \<le> length (data_file s)
          then Some (take n (drop p (data_file s)), s\<lparr>reader := Some (p + n)\<rparr>)
          else None)"

subsection \<open>The record store\<close>

text \<open>
  \<open>append\<close> (here \<open>append_record\<close>) writes the key and the value through \<open>writer\<close> and
  clears the sorted flag (here \<open>is_sorted\<close>). A write to a stream that is not open writes
  nothing.
\<close>

definition append_record :: "'k::len word \<Rightarrow> byte list \<Rightarrow> 'k word dmultimap \<Rightarrow> 'k word dmultimap" where
  "append_record k v s =
     s\<lparr>is_sorted := False,
       writer := map_option (\<lambda>pending. pending @ bytes_of_key k @ v) (writer s)\<rparr>"

text \<open>
  \<open>record_count\<close>: \<open>open_reader\<close> leaves the reader at 0, so \<open>pos\<close> is 0 and the reader is
  back at 0 on return.
\<close>

definition record_count :: "'k::len word dmultimap \<Rightarrow> error + (nat \<times> 'k word dmultimap)" where
  "record_count s =
     (case open_reader s of
        Inl e \<Rightarrow> Inl e
      | Inr s1 \<Rightarrow>
          if record_size s1 = 0 then Inl DivisionByZero
          else if length (data_file s1) mod record_size s1 \<noteq> 0 then Inl AssertionFailed
          else Inr (length (data_file s1) div record_size s1, s1))"

definition nth_key :: "nat \<Rightarrow> 'k::len word dmultimap \<Rightarrow> error + ('k word \<times> 'k word dmultimap)" where
  "nth_key n s =
     (case read_bytes (sizeof_Key (max_key s)) (seekg (n * record_size s) s) of
        None \<Rightarrow> Inl ReadFailed
      | Some (bs, s1) \<Rightarrow> Inr (key_of_bytes bs, s1))"

definition nth_value :: "nat \<Rightarrow> 'k::len word dmultimap \<Rightarrow> error + (byte list \<times> 'k word dmultimap)" where
  "nth_value n s =
     (case read_bytes (sizeof_Value s) (seekg (n * record_size s + sizeof_Key (max_key s)) s) of
        None \<Rightarrow> Inl ReadFailed
      | Some (v, s1) \<Rightarrow> Inr (v, s1))"

subsection \<open>The external sorter\<close>

function chunks :: "nat \<Rightarrow> 'a list \<Rightarrow> 'a list list" where
  "chunks n xs = (if 0 < n \<and> n \<le> length xs then take n xs # chunks n (drop n xs) else [])"
  by pat_completeness auto
termination
  by (relation "measure (\<lambda>(n, xs). length xs)") auto

text \<open>
  Modelled from the spec: \<open>bsort::radixify\<close> (bsort.hpp is not among the sources). The spec's
  contract for the sorter: the file is rewritten in place with its records in non-decreasing
  order of their key, every block of \<open>record_size\<close> bytes moved as a whole. Records with
  equal keys keep their order here; the spec leaves their order open.
  The arguments are the buffer, the number of records, the record size and the key size.
\<close>

definition radixify :: "byte list \<Rightarrow> nat \<Rightarrow> nat \<Rightarrow> nat \<Rightarrow> byte list" where
  "radixify buffer cnt rs ks =
     concat (sort_key (\<lambda>r. nat_of_bytes (take ks r)) (take cnt (chunks rs buffer)))
       @ drop (cnt * rs) buffer"

text \<open>
  \<open>sort\<close> (here \<open>sort_file\<close>). \<open>bsort::open_sort\<close> returns -1 when it cannot open the file,
  which is the case of the empty file name. The sorter is given \<open>sort.size / record_size\<close>
  records; its other arguments (digit, character range, stack size, cut-off) tune the radix
  sort and are left out.
\<close>

definition sort_file :: "'k::len word dmultimap \<Rightarrow> error + 'k word dmultimap" where
  "sort_file s =
     (if is_sorted s then Inr s
      else
        let s1 = close_writer (close_reader s) in
        if filename s1 = [] then Inl AssertionFailed
        else if record_size s1 = 0 then Inl DivisionByZero
        else
          Inr (s1\<lparr>data_file :=
                    radixify (data_file s1) (length (data_file s1) div record_size s1)
                      (record_size s1) (sizeof_Key (max_key s1)),
                  is_sorted := True\<rparr>))"

subsection \<open>Padding the key space\<close>

text \<open>
  The test \<open>prev+1 < curr\<close>. A \<open>Key\<close> narrower than \<open>int\<close> is promoted, so \<open>prev+1\<close> does not
  wrap; otherwise it wraps with the type.
\<close>

definition succ_less :: "'k::len word \<Rightarrow> 'k word \<Rightarrow> bool" where
  "succ_less prev cur =
     (if size prev < 32 then uint prev + 1 < uint cur else prev + 1 < cur)"

text \<open>
  \<^verbatim>\<open>while (prev+1 < curr) { missing_records = true; append(prev, nullvalue); ++prev; }\<close>
\<close>

function pad_gap ::
  "'k::len word \<Rightarrow> 'k word \<Rightarrow> bool \<Rightarrow> 'k word dmultimap \<Rightarrow> 'k word \<times> bool \<times> 'k word dmultimap" where
  "pad_gap prev cur missing s =
     (if succ_less prev cur
      then pad_gap (prev + 1) cur True (append_record prev (nullvalue s) s)
      else (prev, missing, s))"
  by pat_completeness auto
termination
proof (relation "measure (\<lambda>(prev, cur, missing, s). unat (cur - (prev + 1)))")
  show "wf (measure (\<lambda>(prev, cur :: 'k::len word, missing :: bool, s :: 'k word dmultimap).
      unat (cur - (prev + 1))))"
    by simp
next
  fix prev cur :: "'k::len word" and missing :: bool and s :: "'k word dmultimap"
  assume "succ_less prev cur"
  then have less: "prev + 1 < cur"
    unfolding succ_less_def word_size by (cases "LENGTH('k) < 32"; simp; uint_arith)
  have gap: "unat (c - (q + 1)) < unat (c - q)" if "q < c" for q c :: "'k word"
    using that by unat_arith
  from less have "unat (cur - (prev + 1 + 1)) < unat (cur - (prev + 1))"
    by (rule gap)
  then show "((prev + 1, cur, True, append_record prev (nullvalue s) s), (prev, cur, missing, s))
      \<in> measure (\<lambda>(prev, cur, missing, s). unat (cur - (prev + 1)))"
    by simp
qed

text \<open>
  \<^verbatim>\<open>for (size_t i = 0; i < n_records; i+=record_size) { read curr; read value; ...;
       append(curr, value); prev = curr; }\<close>
  The loop is entered after \<open>record_count\<close> has divided by \<open>record_size\<close>, so the stride is
  positive there; the test \<open>0 < record_size s\<close> only makes the recursion total.
\<close>

function pad_loop ::
  "nat \<Rightarrow> nat \<Rightarrow> 'k::len word \<Rightarrow> bool \<Rightarrow> 'k word dmultimap \<Rightarrow> error + (bool \<times> 'k word dmultimap)" where
  "pad_loop i n prev missing s =
     (if i < n \<and> 0 < record_size s then
        (case read_bytes (sizeof_Key (max_key s)) s of
           None \<Rightarrow> Inl ReadFailed
         | Some (kb, s1) \<Rightarrow>
             (case read_bytes (sizeof_Value s1) s1 of
                None \<Rightarrow> Inl ReadFailed
              | Some (v, s2) \<Rightarrow>
                  (case pad_gap prev (key_of_bytes kb) missing s2 of
                     (prev', missing', s3) \<Rightarrow>
                       pad_loop (i + record_size s) n (key_of_bytes kb) missing'
                         (append_record (key_of_bytes kb) v s3))))
      else Inr (missing, s))"
  by pat_completeness auto
termination
  by (relation "measure (\<lambda>(i, n, prev, missing, s). n - i)") auto

definition pad :: "'k::len word dmultimap \<Rightarrow> error + 'k word dmultimap" where
  "pad s =
     (if \<not> is_sorted s then Inl AssertionFailed
      else
        case open_reader s of
          Inl e \<Rightarrow> Inl e
        | Inr s1 \<Rightarrow>
            (case open_writer s1 of
               Inl e \<Rightarrow> Inl e
             | Inr s2 \<Rightarrow>
                 (case record_count s2 of
                    Inl e \<Rightarrow> Inl e
                  | Inr (n_records, s3) \<Rightarrow>
                      (case pad_loop 0 n_records 0 False s3 of
                         Inl e \<Rightarrow> Inl e
                       | Inr (missing_records, s4) \<Rightarrow>
                           if missing_records then sort_file s4 else Inr s4))))"

subsection \<open>Building the index\<close>

text \<open>
  \<^verbatim>\<open>for (size_t i = 1; i < n_records; i+=record_size) { reader.read((char*)&curr, sizeof(Key));
       if (curr != last) { key_bv[i] = 1; last = curr; } }\<close>
  Each pass reads the next \<open>sizeof(Key)\<close> bytes at the reader's position. The result carries
  \<open>curr\<close> as the loop leaves it.
\<close>

function index_loop ::
  "nat \<Rightarrow> nat \<Rightarrow> 'k::len word \<Rightarrow> 'k word \<Rightarrow> bool list \<Rightarrow> 'k word dmultimap
     \<Rightarrow> error + ('k word \<times> bool list \<times> 'k word dmultimap)" where
  "index_loop i n last_key cur key_bv s =
     (if i < n \<and> 0 < record_size s then
        (case read_bytes (sizeof_Key (max_key s)) s of
           None \<Rightarrow> Inl ReadFailed
         | Some (kb, s1) \<Rightarrow>
             if key_of_bytes kb \<noteq> last_key
             then index_loop (i + record_size s) n (key_of_bytes kb) (key_of_bytes kb)
                    (key_bv[i := True]) s1
             else index_loop (i + record_size s) n last_key (key_of_bytes kb) key_bv s1)
      else Inr (cur, key_bv, s))"
  by pat_completeness auto
termination
  by (relation "measure (\<lambda>(i, n, last_key, cur, key_bv, s). n - i)") auto

text \<open>
  \<open>index\<close>; \<open>curr0\<close> is what the local \<open>curr\<close> holds before the loop assigns it.
  \<open>key_bv[0] = 1\<close> on a bit vector of length 0 is a write out of bounds.
\<close>

definition index :: "'k::len word \<Rightarrow> 'k word dmultimap \<Rightarrow> error + 'k word dmultimap" where
  "index curr0 s =
     (case sort_file s of
        Inl e \<Rightarrow> Inl e
      | Inr s1 \<Rightarrow>
          (case pad s1 of
             Inl e \<Rightarrow> Inl e
           | Inr s2 \<Rightarrow>
               (case open_reader s2 of
                  Inl e \<Rightarrow> Inl e
                | Inr s3 \<Rightarrow>
                    (case record_count s3 of
                       Inl e \<Rightarrow> Inl e
                     | Inr (n_records, s4) \<Rightarrow>
                         (case read_bytes (sizeof_Key (max_key s4)) s4 of
                            None \<Rightarrow> Inl ReadFailed
                          | Some (kb, s5) \<Rightarrow>
                              if n_records = 0 then Inl IndexOutOfBounds
                              else
                                (case index_loop 1 n_records (key_of_bytes kb) curr0
                                        ((replicate n_records False)[0 := True]) s5 of
                                   Inl e \<Rightarrow> Inl e
                                 | Inr (cur, key_bv, s6) \<Rightarrow>
                                     Inr (s6\<lparr>max_key := cur, key_cbv := key_bv,
                                              indexed := True\<rparr>)))))))"

subsection \<open>Queries\<close>

text \<open>
  Modelled from the spec: the select support of the compressed bit vector (sdsl is not among
  the sources). \<open>select_1 bv r\<close> is the position of the \<open>r\<close>-th set bit of \<open>bv\<close>, counted from 0;
  there is none when \<open>bv\<close> has at most \<open>r\<close> set bits.
\<close>

fun select_1 :: "bool list \<Rightarrow> nat \<Rightarrow> nat option" where
  "select_1 [] r = None"
| "select_1 (b # bv) r =
     (if b then (case r of 0 \<Rightarrow> Some 0 | Suc r' \<Rightarrow> map_option Suc (select_1 bv r'))
      else map_option Suc (select_1 bv r))"

definition key_cbv_select :: "'k::len word dmultimap \<Rightarrow> nat \<Rightarrow> error + nat" where
  "key_cbv_select s r =
     (case select_1 (key_cbv s) r of None \<Rightarrow> Inl SelectOutOfRange | Some pos \<Rightarrow> Inr pos)"

text \<open>\<^verbatim>\<open>for ( ; i < j; ++i) values.push_back(nth_value(i));\<close>\<close>

function values_loop ::
  "nat \<Rightarrow> nat \<Rightarrow> byte list list \<Rightarrow> 'k::len word dmultimap
     \<Rightarrow> error + (byte list list \<times> 'k word dmultimap)" where
  "values_loop i j vals s =
     (if i < j then
        (case nth_value i s of
           Inl e \<Rightarrow> Inl e
         | Inr (v, s1) \<Rightarrow> values_loop (Suc i) j (vals @ [v]) s1)
      else Inr (vals, s))"
  by pat_completeness auto
termination
  by (relation "measure (\<lambda>(i, j, vals, s). j - i)") auto

text \<open>\<open>values\<close> (here \<open>values_of\<close>).\<close>

definition values_of ::
  "'k::len word \<Rightarrow> 'k word dmultimap \<Rightarrow> error + (byte list list \<times> 'k word dmultimap)" where
  "values_of key s =
     (case (if reader s = None then open_reader s else Inr s) of
        Inl e \<Rightarrow> Inl e
      | Inr s1 \<Rightarrow>
          (case key_cbv_select s1 (unat key) of
             Inl e \<Rightarrow> Inl e
           | Inr i \<Rightarrow>
               (case (if key < max_key s1
                      then (case key_cbv_select s1 (unat key + 1) of
                              Inl e \<Rightarrow> Inl e
                            | Inr j \<Rightarrow> Inr (j, s1))
                      else record_count s1) of
                  Inl e \<Rightarrow> Inl e
                | Inr (j, s2) \<Rightarrow> values_loop i j [] s2)))"

subsection \<open>Persistence\<close>

text \<open>
  \<open>save\<close>. The index file is opened under \<open>index_filename\<close>; a stream that could not be opened
  (the empty name) writes nothing. The returned byte count depends on the serialised size of
  the sdsl structures and is left out.
\<close>

definition save :: "'k::len word dmultimap \<Rightarrow> error + 'k word dmultimap" where
  "save s =
     (if max_key s \<noteq> 0 \<and> indexed s then
        (case record_count s of
           Inl e \<Rightarrow> Inl e
         | Inr (n_records, s1) \<Rightarrow>
             Inr (if index_filename s1 = [] then s1
                  else s1\<lparr>index_file :=
                            Some \<lparr>ix_magic = ''dmultimap'', ix_version = OUTPUT_VERSION,
                                  ix_record_size = record_size s1, ix_n_records = n_records,
                                  ix_max_key = max_key s1, ix_key_cbv = key_cbv s1\<rparr>\<rparr>))
      else Inl AssertionFailed)"

text \<open>
  \<open>load\<close>. The magic bytes are read and not compared. With no index file the reads fail and
  \<open>version\<close> is uninitialised.
\<close>

definition load :: "string \<Rightarrow> 'k::len word dmultimap \<Rightarrow> error + 'k word dmultimap" where
  "load f s =
     (case open_reader s of
        Inl e \<Rightarrow> Inl e
      | Inr s1 \<Rightarrow>
          let s2 = set_base_filename f s1 in
          (case index_file s2 of
             None \<Rightarrow> Inl ReadFailed
           | Some ix \<Rightarrow>
               if ix_version ix \<noteq> OUTPUT_VERSION then Inl AssertionFailed
               else if ix_record_size ix \<noteq> record_size s2 then Inl AssertionFailed
               else
                 (case record_count s2 of
                    Inl e \<Rightarrow> Inl e
                  | Inr (n, s3) \<Rightarrow>
                      if ix_n_records ix \<noteq> n then Inl AssertionFailed
                      else
                        let s4 = s3\<lparr>max_key := ix_max_key ix\<rparr> in
                        (case nth_key (ix_n_records ix) s4 of
                           Inl e \<Rightarrow> Inl e
                         | Inr (k, s5) \<Rightarrow>
                             if max_key s5 \<noteq> k then Inl AssertionFailed
                             else Inr (s5\<lparr>key_cbv := ix_key_cbv ix\<rparr>)))))"

subsection \<open>Building a store from a list of pairs\<close>

text \<open>
  The calls a client makes to build a queryable store on an empty file named \<open>f\<close>: construct,
  \<open>open_writer(f)\<close>, \<open>append\<close> each pair in turn, \<open>index\<close>.
\<close>

fun append_all :: "('k::len word \<times> byte list) list \<Rightarrow> 'k word dmultimap \<Rightarrow> 'k word dmultimap" where
  "append_all [] s = s"
| "append_all ((k, v) # kvs) s = append_all kvs (append_record k v s)"

definition build ::
  "string \<Rightarrow> nat \<Rightarrow> byte list \<Rightarrow> 'k::len word \<Rightarrow> ('k word \<times> byte list) list
     \<Rightarrow> error + 'k word dmultimap" where
  "build f i0 nv0 curr0 kvs =
     (case open_writer_named f (dmultimap_new f i0 0 nv0 [] None) of
        Inl e \<Rightarrow> Inl e
      | Inr s \<Rightarrow> index curr0 (append_all kvs s))"

subsection \<open>Sequencing and observations\<close>

definition and_then :: "error + 'a \<Rightarrow> ('a \<Rightarrow> error + 'b) \<Rightarrow> error + 'b" where
  "and_then m f = (case m of Inl e \<Rightarrow> Inl e | Inr x \<Rightarrow> f x)"

text \<open>The value bytes of record \<open>n\<close> of the data file.\<close>

definition record_value :: "'k::len word dmultimap \<Rightarrow> nat \<Rightarrow> byte list" where
  "record_value s n =
     take (sizeof_Value s) (drop (n * record_size s + sizeof_Key (max_key s)) (data_file s))"

text \<open>A new instance over the files another instance has left on disk.\<close>

definition fresh_instance ::
  "string \<Rightarrow> nat \<Rightarrow> byte list \<Rightarrow> 'k::len word dmultimap \<Rightarrow> 'k word dmultimap" where
  "fresh_instance f i0 nv0 s = dmultimap_new f i0 0 nv0 (data_file s) (index_file s)"

text \<open>The keys of the records of the data file, in file order.\<close>

definition record_keys :: "'k::len word dmultimap \<Rightarrow> 'k word list" where
  "record_keys s =
     map (\<lambda>r. key_of_bytes (take (sizeof_Key (max_key s)) r))
       (chunks (record_size s) (data_file s))"

subsection \<open>Instances that were never indexed\<close>


subsection \<open>Stores with one-byte keys and one-byte values\<close>

text \<open>
  \<open>Key = Value = uint8_t\<close>, so \<open>record_size = 2\<close>. \<open>indexed_2\<close> and \<open>indexed_3\<close> are the
  instances that \<open>index\<close> leaves after the single pair (2, 7) or (3, 7) was appended to an
  empty file, \<open>indexed_zeros\<close> the one it leaves after the five pairs (0, 1), (0, 2), (0, 3),
  (0, 4), (0, 5) (lemmas \<open>build_indexed_2\<close>, \<open>build_indexed_3\<close>, \<open>build_indexed_zeros\<close>).
\<close>

definition indexed_2 :: "8 word dmultimap" where
  "indexed_2 =
     \<lparr>data_file = [0, 0, 2, 7, 2, 7], index_file = None, writer = None, reader = Some 2,
      filename = ''f'', index_filename = ''f.idx'', is_sorted = True, record_size = 2,
      max_key = 0, nullkey = 0, nullvalue = [0], key_cbv = [True, False, False],
      indexed = True\<rparr>"

definition indexed_3 :: "8 word dmultimap" where
  "indexed_3 =
     \<lparr>data_file = [0, 0, 1, 0, 3, 7, 3, 7], index_file = None, writer = None,
      reader = Some 3, filename = ''f'', index_filename = ''f.idx'', is_sorted = True,
      record_size = 2, max_key = 1, nullkey = 0, nullvalue = [0],
      key_cbv = [True, False, False, True], indexed = True\<rparr>"

definition indexed_zeros :: "8 word dmultimap" where
  "indexed_zeros =
     \<lparr>data_file = [0, 1, 0, 2, 0, 3, 0, 4, 0, 5], index_file = None,
      writer = Some [0, 1, 0, 2, 0, 3], reader = Some 3, filename = ''f'',
      index_filename = ''f.idx'', is_sorted = False, record_size = 2, max_key = 0,
      nullkey = 0, nullvalue = [0], key_cbv = [True, True, False, True, False],
      indexed = True\<rparr>"

text \<open>
  \<open>empty_store\<close> is the instance after construction on an empty file and \<open>open_writer("f")\<close>
  (lemma \<open>open_empty_store\<close>); \<open>init\<close> has run with \<open>i = 0\<close>.
\<close>

definition empty_store :: "8 word dmultimap" where
  "empty_store =
     \<lparr>data_file = [], index_file = None, writer = Some [], reader = None,
      filename = ''f'', index_filename = ''f.idx'', is_sorted = False, record_size = 2,
      max_key = 0, nullkey = 0, nullvalue = [0], key_cbv = [], indexed = False\<rparr>"

section \<open>Properties\<close>

subsection \<open>The example stores are what the code builds\<close>


lemma build_indexed_2: "build ''f'' 0 [255] 9 [(2, [7])] = Inr indexed_2"
  by code_simp

lemma build_indexed_3: "build ''f'' 0 [255] 9 [(3, [7])] = Inr indexed_3"
  by code_simp

lemma build_indexed_zeros:
  "build ''f'' 0 [255] 9 [(0, [1]), (0, [2]), (0, [3]), (0, [4]), (0, [5])] = Inr indexed_zeros"
  by code_simp

subsection \<open>Construction\<close>

text \<open>The loop of \<open>init\<close> zeroes the bytes from its starting index on and no others.\<close>

lemma init_loop_eq: "init_loop i nv = take i nv @ replicate (length nv - i) 0"
proof (induction i nv rule: init_loop.induct)
  case (1 i nv)
  show ?case
  proof (cases "i < length nv")
    case True
    then have "init_loop i nv = init_loop (Suc i) (nv[i := 0])"
      by simp
    also have "\<dots> = take (Suc i) (nv[i := 0]) @ replicate (length nv - Suc i) 0"
      using 1 True by simp
    also have "\<dots> = take i nv @ replicate (length nv - i) 0"
      using True
      by (simp add: take_Suc_conv_app_nth replicate_app_Cons_same Suc_diff_Suc
          flip: replicate_Suc)
    finally show ?thesis .
  next
    case False
    then show ?thesis by simp
  qed
qed

lemma record_size_new:
  "record_size (dmultimap_new f i0 nk0 nv0 d ix :: 'k::len word dmultimap)
     = (LENGTH('k) + 7) div 8 + length nv0"
  by (simp add: dmultimap_new_def init_def sizeof_Key_def sizeof_Value_def word_size)

text \<open>
  The constructor fixes the record layout: \<open>record_size\<close> is \<open>sizeof(Key) + sizeof(Value)\<close>,
  whatever the loop of \<open>init\<close> does to the bytes of \<open>nullvalue\<close>.
\<close>

lemma layout_new:
  "record_size (dmultimap_new f i0 nk0 nv0 d ix :: 'k::len word dmultimap)
     = sizeof_Key (max_key (dmultimap_new f i0 nk0 nv0 d ix :: 'k word dmultimap))
       + sizeof_Value (dmultimap_new f i0 nk0 nv0 d ix :: 'k word dmultimap)"
proof -
  have "length (init_loop i0 nv0) = length nv0"
    by (simp only: init_loop_eq) simp
  then show ?thesis
    by (simp add: dmultimap_new_def init_def sizeof_Key_def sizeof_Value_def word_size
        del: init_loop.simps)
qed

text \<open>
  C9. After construction every byte of the null value is zero.
  The code does not establish this: the loop of \<open>init\<close> starts at an uninitialised \<open>i\<close>. When
  \<open>i\<close> holds 1 and the two bytes of \<open>nullvalue\<close> hold 255, byte 0 keeps 255.
\<close>

theorem init_nullvalue_not_zeroed:
  "nullvalue (dmultimap_new ''f'' 1 0 [255, 255] [] None :: 8 word dmultimap) = [255, 0]"
  by code_simp

subsection \<open>The record count\<close>

text \<open>
  C7. \<open>record_count\<close> returns the size of the data file divided by \<open>record_size\<close>, and fails
  its assertion whenever the size is not a multiple of \<open>record_size\<close>. (\<open>record_size\<close> is
  positive: the constructor sets it to \<open>sizeof(Key) + sizeof(Value)\<close>. The count is returned
  when the reader is open or can be opened.)
\<close>

theorem record_count_spec:
  assumes "0 < record_size s"
  shows "(length (data_file s) mod record_size s \<noteq> 0 \<longrightarrow>
            record_count s = Inl AssertionFailed) \<and>
         (length (data_file s) mod record_size s = 0 \<longrightarrow>
            (reader s = None \<longrightarrow> filename s \<noteq> []) \<longrightarrow>
            map_sum id fst (record_count s) = Inr (length (data_file s) div record_size s))"
  using assms by (auto simp: record_count_def open_reader_def split: option.splits)

theorem record_count_spec_witness:
  "record_count (indexed_2\<lparr>data_file := [0, 0, 2, 7, 2]\<rparr>) = Inl AssertionFailed \<and>
   map_sum id fst (record_count indexed_2) = Inr 3"
proof -
  have a: "0 < record_size (indexed_2\<lparr>data_file := [0, 0, 2, 7, 2]\<rparr>)"
    by (simp add: indexed_2_def)
  have b: "0 < record_size indexed_2"
    by (simp add: indexed_2_def)
  show ?thesis
    using record_count_spec [OF a] record_count_spec [OF b]
    by (simp add: indexed_2_def)
qed

subsection \<open>Saving\<close>

text \<open>
  C10. \<open>save\<close> needs both the indexed flag and a nonzero \<open>max_key\<close>: on an indexed instance
  whose \<open>max_key\<close> is 0 it fails its entry assertion, and whenever it returns, the instance
  was indexed with a nonzero \<open>max_key\<close>.
\<close>

theorem save_needs_max_key:
  "(indexed s \<and> max_key s = 0 \<longrightarrow> save s = Inl AssertionFailed) \<and>
   (\<forall>s'. save s = Inr s' \<longrightarrow> indexed s \<and> max_key s \<noteq> 0)"
  by (auto simp: save_def split: if_splits)

theorem save_needs_max_key_witness:
  "indexed indexed_2 \<and> max_key indexed_2 = 0 \<and> save indexed_2 = Inl AssertionFailed"
  using save_needs_max_key [of indexed_2] by (simp add: indexed_2_def)

subsection \<open>Sorting and padding\<close>

text \<open>A second \<open>sort\<close> in a row returns at once: the flag is set.\<close>

lemma sort_file_idem: "sort_file s = Inr s' \<Longrightarrow> sort_file s' = Inr s'"
  by (auto simp: sort_file_def Let_def split: if_splits)

text \<open>
  C2. On a sorted store \<open>pad\<close> fills every gap, so that afterwards every key in
  \<open>[0, max_key]\<close> has a record.
  The code does not: the gap loop appends the key \<open>prev\<close>, not \<open>prev+1\<close>, and stops before
  \<open>curr - 1\<close>. On the sorted store holding the one record (2, 7) it appends (0, null) and
  a second (2, 7); after the re-sort the keys are 0, 2, 2 and key 1 has no record.
\<close>

theorem pad_leaves_gap:
  "map_sum id record_keys
      (and_then (sort_file (append_all [(2 :: 8 word, [7])] empty_store)) pad)
     = Inr [0, 2, 2]"
  by code_simp

text \<open>
  C3. \<open>sort\<close> and \<open>pad\<close> are idempotent, and \<open>pad\<close> on a dense store appends nothing.
  \<open>sort\<close> is (lemma \<open>sort_file_idem\<close>); \<open>pad\<close> is not. It appends every record it visits
  again. On the dense sorted store holding (0, 7) it writes a second (0, 7) and leaves the
  sorted flag cleared, so that a second \<open>pad\<close> fails \<open>assert(sorted)\<close>. On the sorted store
  holding (2, 7) the first \<open>pad\<close> leaves three records and the second one six.
\<close>

theorem pad_not_idempotent:
  "map_sum id (\<lambda>s. (data_file s, writer s, is_sorted s))
      (and_then (sort_file (append_all [(0 :: 8 word, [7])] empty_store)) pad)
     = Inr ([0, 7], Some [0, 7], False) \<and>
   and_then (and_then (sort_file (append_all [(0 :: 8 word, [7])] empty_store)) pad) pad
     = Inl AssertionFailed \<and>
   map_sum id data_file
      (and_then (sort_file (append_all [(2 :: 8 word, [7])] empty_store)) pad)
     = Inr [0, 0, 2, 7, 2, 7] \<and>
   map_sum id data_file
      (and_then (and_then (sort_file (append_all [(2 :: 8 word, [7])] empty_store)) pad) pad)
     = Inr [0, 0, 0, 0, 0, 0, 2, 7, 2, 7, 2, 7]"
  by code_simp

subsection \<open>The index scan\<close>

text \<open>
  C4. On a sorted, dense store \<open>index\<close> visits every record once; bit 0 of the key-starts
  vector is set, bit \<open>i\<close> is set iff the keys of records \<open>i\<close> and \<open>i - 1\<close> differ, and
  \<open>max_key\<close> ends as the key of the last record.
  The code does not: the loop counter advances by \<open>record_size\<close>, and each pass reads the
  next \<open>sizeof(Key)\<close> bytes of the file, which after the first key are the value of record 0.
  On the store with the records (0, 5), (1, 6), (2, 7) the vector is 1, 1, 0 (not 1, 1, 1) and
  \<open>max_key\<close> is 5, the value of record 0 (not 2). On the sorted store that \<open>pad\<close> makes
  of the pair (3, 7), with the keys 0, 1, 3, 3, the vector is 1, 0, 0, 1 (not 1, 1, 1, 0) and
  \<open>max_key\<close> is 1 (not 3).
\<close>

theorem index_scan_wrong:
  "map_sum id (\<lambda>s. (record_keys s, key_cbv s, max_key s))
      (index 9 (append_all [(0 :: 8 word, [5]), (1, [6]), (2, [7])] empty_store))
     = Inr ([0, 1, 2], [True, True, False], 5) \<and>
   map_sum id (\<lambda>s. (record_keys s, key_cbv s, max_key s))
      (index 9 (append_all [(3 :: 8 word, [7])] empty_store))
     = Inr ([0, 1, 3, 3], [True, False, False, True], 1)"
  by code_simp

subsection \<open>Round trip\<close>

text \<open>
  C1. After \<open>index\<close>, \<open>values(k)\<close> returns exactly the values appended with key \<open>k\<close>.
  The code does not. After appending the one pair (2, 7), \<open>values(0)\<close> returns the null value
  and both copies of 7, although nothing was appended with key 0, and \<open>values(2)\<close> asks for
  a set bit that the key-starts vector does not have.
\<close>

theorem round_trip_fails:
  "map_sum id fst (and_then (build ''f'' 0 [255] 9 [(2 :: 8 word, [7])]) (values_of 0))
     = Inr [[0], [7], [7]] \<and>
   map_sum id fst (and_then (build ''f'' 0 [255] 9 [(2 :: 8 word, [7])]) (values_of 2))
     = Inl SelectOutOfRange"
  by code_simp

subsection \<open>Loading\<close>

lemma sizeof_Key_pos: "0 < sizeof_Key k"
  by (simp add: sizeof_Key_def word_size div_greater_zero_iff Suc_le_eq)

text \<open>\<open>nth_key(record_count())\<close> reads at the end of the file.\<close>

lemma nth_key_at_end:
  assumes "record_count s = Inr (n, s1)"
  shows "nth_key n (s1\<lparr>max_key := k\<rparr>) = Inl ReadFailed"
proof -
  from assms have n: "n * record_size s1 = length (data_file s1)" and "reader s1 = Some 0"
    by (auto simp: record_count_def open_reader_def split: option.splits if_splits sum.splits)
  then show ?thesis
    using sizeof_Key_pos [of k]
    by (simp add: nth_key_def read_bytes_def seekg_def)
qed

text \<open>
  \<open>load\<close> never returns normally: once the stored record count equals \<open>record_count()\<close>, the
  key it compares \<open>max_key\<close> with was never read.
\<close>

lemma load_never_returns: "load f s \<noteq> Inr s'"
proof
  assume l: "load f s = Inr s'"
  then obtain s1 where s1: "open_reader s = Inr s1"
    by (auto simp: load_def split: sum.splits)
  from l s1 obtain ix where ix: "index_file (set_base_filename f s1) = Some ix"
    by (auto simp: load_def Let_def split: option.splits)
  from l s1 ix obtain n s3 where rc: "record_count (set_base_filename f s1) = Inr (n, s3)"
    by (auto simp: load_def Let_def split: if_splits sum.splits)
  from l s1 ix rc have n: "ix_n_records ix = n"
    by (auto simp: load_def Let_def split: if_splits)
  from l s1 ix rc n have "nth_key n (s3\<lparr>max_key := ix_max_key ix\<rparr>) \<noteq> Inl ReadFailed"
    by (auto simp: load_def Let_def split: if_splits sum.splits)
  with nth_key_at_end [OF rc] show False
    by simp
qed

text \<open>A stored version other than \<open>OUTPUT_VERSION\<close> fails the assertion of \<open>load\<close>.\<close>

lemma load_version_mismatch:
  assumes "index_file s = Some ix" and "ix_version ix \<noteq> OUTPUT_VERSION"
    and "reader s = None \<longrightarrow> filename s \<noteq> []"
  shows "load f s = Inl AssertionFailed"
  using assms
  by (auto simp: load_def open_reader_def set_base_filename_def split: option.splits)

text \<open>
  C8. \<open>save\<close> followed by \<open>load\<close> on a fresh instance over the same data file succeeds and
  answers \<open>values\<close> as the original does; \<open>load\<close> fails on another version.
  The code does not load: \<open>load\<close> asserts \<open>max_key == nth_key(n_records)\<close>, the key one past
  the last record. For the instance built from the pair (3, 7), \<open>save\<close> writes the index file
  and \<open>load\<close> on a fresh instance stops at that read.
\<close>

theorem save_load_fails:
  "and_then (and_then (build ''f'' 0 [255] 9 [(3 :: 8 word, [7])]) save)
      (\<lambda>s. load ''f'' (fresh_instance ''f'' 0 [255] s)) = Inl ReadFailed"
  by code_simp

subsection \<open>What the build steps keep\<close>

declare pad_gap.simps [simp del] pad_loop.simps [simp del] index_loop.simps [simp del]

lemma read_bytes_frame:
  assumes "read_bytes n s = Some (bs, s1)"
  shows "data_file s1 = data_file s" "record_size s1 = record_size s"
    "nullvalue s1 = nullvalue s" "filename s1 = filename s" "reader s1 \<noteq> None"
    "writer s1 = writer s"
  using assms by (auto simp: read_bytes_def split: option.splits if_splits)

lemma pad_gap_frame:
  assumes "pad_gap prev cur missing s = (prev', missing', s')"
  shows "data_file s' = data_file s \<and> record_size s' = record_size s \<and>
         nullvalue s' = nullvalue s \<and> filename s' = filename s \<and> reader s' = reader s"
  using assms
proof (induction prev cur missing s rule: pad_gap.induct)
  case (1 prev cur missing s)
  show ?case
  proof (cases "succ_less prev cur")
    case True
    with "1.prems" have "pad_gap (prev + 1) cur True (append_record prev (nullvalue s) s)
        = (prev', missing', s')"
      by (simp add: pad_gap.simps [of prev])
    from "1.IH" [OF True this] show ?thesis
      by (simp add: append_record_def)
  next
    case False
    with "1.prems" show ?thesis
      by (simp add: pad_gap.simps [of prev])
  qed
qed

lemma pad_loop_frame:
  assumes "pad_loop i n prev missing s = Inr (missing', s')"
  shows "data_file s' = data_file s \<and> record_size s' = record_size s \<and>
         nullvalue s' = nullvalue s \<and> filename s' = filename s"
  using assms
proof (induction i n prev missing s rule: pad_loop.induct)
  case (1 i n prev missing s)
  show ?case
  proof (cases "i < n \<and> 0 < record_size s")
    case False
    with "1.prems" show ?thesis
      by (simp add: pad_loop.simps [of i])
  next
    case True
    from True "1.prems" obtain kb s1 where r1: "read_bytes (sizeof_Key (max_key s)) s = Some (kb, s1)"
      by (auto simp: pad_loop.simps [of i] split: option.splits)
    from True "1.prems" r1 obtain v s2 where r2: "read_bytes (sizeof_Value s1) s1 = Some (v, s2)"
      by (auto simp: pad_loop.simps [of i] split: option.splits)
    obtain p' m' s3 where g: "pad_gap prev (key_of_bytes kb) missing s2 = (p', m', s3)"
      by (cases "pad_gap prev (key_of_bytes kb) missing s2")
    from True "1.prems" r1 r2 g
    have rec: "pad_loop (i + record_size s) n (key_of_bytes kb) m'
                 (append_record (key_of_bytes kb) v s3) = Inr (missing', s')"
      by (simp add: pad_loop.simps [of i])
    from "1.IH" [OF True r1 refl r2 refl g [symmetric] refl rec]
      read_bytes_frame [OF r1] read_bytes_frame [OF r2] pad_gap_frame [OF g]
    show ?thesis
      by (simp add: append_record_def)
  qed
qed


lemma index_loop_frame:
  assumes "index_loop i n last_key cur key_bv s = Inr (cur', key_bv', s')"
  shows "data_file s' = data_file s \<and> record_size s' = record_size s \<and>
         nullvalue s' = nullvalue s \<and> filename s' = filename s \<and>
         length key_bv' = length key_bv \<and> (reader s \<noteq> None \<longrightarrow> reader s' \<noteq> None)"
  using assms
proof (induction i n last_key cur key_bv s rule: index_loop.induct)
  case (1 i n last_key cur key_bv s)
  show ?case
  proof (cases "i < n \<and> 0 < record_size s")
    case False
    with "1.prems" show ?thesis
      by (simp add: index_loop.simps [of i])
  next
    case True
    from True "1.prems" obtain kb s1 where r1: "read_bytes (sizeof_Key (max_key s)) s = Some (kb, s1)"
      by (auto simp: index_loop.simps [of i] split: option.splits)
    show ?thesis
    proof (cases "key_of_bytes kb \<noteq> last_key")
      case differ: True
      with True "1.prems" r1
      have rec: "index_loop (i + record_size s) n (key_of_bytes kb) (key_of_bytes kb)
                   (key_bv[i := True]) s1 = Inr (cur', key_bv', s')"
        by (simp add: index_loop.simps [of i])
      from "1.IH"(1) [OF True r1 refl differ rec] read_bytes_frame [OF r1] show ?thesis
        by simp
    next
      case same: False
      with True "1.prems" r1
      have rec: "index_loop (i + record_size s) n last_key (key_of_bytes kb) key_bv s1
                   = Inr (cur', key_bv', s')"
        by (simp add: index_loop.simps [of i])
      from "1.IH"(2) [OF True r1 refl same rec] read_bytes_frame [OF r1] show ?thesis
        by simp
    qed
  qed
qed

lemma record_count_frame:
  assumes "record_count s = Inr (n, s1)"
  shows "n * record_size s = length (data_file s)" "0 < record_size s"
    "s1 = s\<lparr>reader := Some 0\<rparr>"
  using assms
  by (auto simp: record_count_def open_reader_def split: option.splits if_splits)

lemma sort_file_frame:
  assumes "sort_file s = Inr s'"
  shows "record_size s' = record_size s \<and> nullvalue s' = nullvalue s \<and> filename s' = filename s"
  using assms
  by (auto simp: sort_file_def Let_def close_writer_def close_reader_def
      split: if_splits option.splits)

lemma pad_frame:
  assumes "pad s = Inr s'"
  shows "record_size s' = record_size s \<and> nullvalue s' = nullvalue s \<and> filename s' = filename s"
proof -
  from assms obtain s1 where o1: "open_reader s = Inr s1"
    by (auto simp: pad_def split: if_splits sum.splits)
  from assms o1 obtain s2 where o2: "open_writer s1 = Inr s2"
    by (auto simp: pad_def split: if_splits sum.splits)
  from assms o1 o2 obtain n s3 where rc: "record_count s2 = Inr (n, s3)"
    by (auto simp: pad_def split: if_splits sum.splits)
  from assms o1 o2 rc obtain m s4 where pl: "pad_loop 0 n 0 False s3 = Inr (m, s4)"
    by (auto simp: pad_def split: if_splits sum.splits)
  from assms o1 o2 rc pl have fin: "(if m then sort_file s4 else Inr s4) = Inr s'"
    by (auto simp: pad_def split: if_splits)
  have a: "record_size s3 = record_size s \<and> nullvalue s3 = nullvalue s \<and> filename s3 = filename s"
    using o1 o2 record_count_frame(3) [OF rc]
    by (auto simp: open_reader_def open_writer_def split: option.splits if_splits)
  from fin have b: "record_size s' = record_size s4 \<and> nullvalue s' = nullvalue s4 \<and>
      filename s' = filename s4"
    by (cases m) (auto dest: sort_file_frame)
  from a b pad_loop_frame [OF pl] show ?thesis
    by simp
qed

text \<open>
  What \<open>index\<close> leaves behind: the instance is flagged indexed, the reader is open, the
  record layout is unchanged, the data file holds whole records and the key-starts vector
  has one bit per record of the file.
\<close>

lemma index_establishes:
  assumes "index curr0 s = Inr s'"
  shows "indexed s' \<and> reader s' \<noteq> None \<and>
         record_size s' = record_size s \<and> nullvalue s' = nullvalue s \<and>
         length (data_file s') mod record_size s' = 0 \<and>
         length (key_cbv s') * record_size s' = length (data_file s')"
proof -
  from assms obtain s1 where a1: "sort_file s = Inr s1"
    by (auto simp: index_def split: sum.splits)
  from assms a1 obtain s2 where a2: "pad s1 = Inr s2"
    by (auto simp: index_def split: sum.splits)
  from assms a1 a2 obtain s3 where a3: "open_reader s2 = Inr s3"
    by (auto simp: index_def split: sum.splits)
  from assms a1 a2 a3 obtain n s4 where a4: "record_count s3 = Inr (n, s4)"
    by (auto simp: index_def split: sum.splits)
  from assms a1 a2 a3 a4 obtain kb s5 where
    a5: "read_bytes (sizeof_Key (max_key s4)) s4 = Some (kb, s5)"
    by (auto simp: index_def split: option.splits)
  from assms a1 a2 a3 a4 a5 obtain cur key_bv s6 where
    a6: "index_loop 1 n (key_of_bytes kb) curr0 ((replicate n False)[0 := True]) s5
           = Inr (cur, key_bv, s6)"
    and s': "s' = s6\<lparr>max_key := cur, key_cbv := key_bv, indexed := True\<rparr>"
    by (auto simp: index_def split: if_splits sum.splits)
  have l3: "record_size s3 = record_size s \<and> nullvalue s3 = nullvalue s"
    using sort_file_frame [OF a1] pad_frame [OF a2] a3
    by (auto simp: open_reader_def split: option.splits if_splits)
  note rc = record_count_frame [OF a4]
  note f5 = read_bytes_frame [OF a5]
  note f6 = index_loop_frame [OF a6]
  have len: "length key_bv = n"
    using f6 by simp
  have "n * record_size s6 = length (data_file s6)"
    using rc f5 f6 by simp
  moreover have "record_size s6 = record_size s \<and> nullvalue s6 = nullvalue s"
    using l3 rc f5 f6 by simp
  moreover have "reader s6 \<noteq> None"
    using f5 f6 by simp
  ultimately show ?thesis
    using s' len by (auto simp: mod_eq_0_iff_dvd intro: dvdI [of _ _ n] simp: mult.commute)
qed

lemma append_all_frame:
  "record_size (append_all kvs s) = record_size s \<and> nullvalue (append_all kvs s) = nullvalue s"
  by (induction kvs s rule: append_all.induct) (simp_all add: append_record_def)

lemma sizeof_Key_any: "sizeof_Key (k :: 'k::len word) = sizeof_Key (k' :: 'k word)"
  by (simp add: sizeof_Key_def word_size)

text \<open>
  Every store that \<open>build\<close> returns is flagged indexed with an open reader, has the record
  layout of the constructor and a data file of whole records, and its key-starts vector has
  one bit per record.
\<close>

lemma build_ready:
  assumes "build f i0 nv0 curr0 kvs = Inr s"
  shows "indexed s \<and> reader s \<noteq> None \<and>
         record_size s = sizeof_Key (max_key s) + sizeof_Value s \<and>
         length (data_file s) mod record_size s = 0 \<and>
         length (key_cbv s) * record_size s \<le> length (data_file s)"
proof -
  let ?new = "dmultimap_new f i0 0 nv0 [] None :: 'a word dmultimap"
  from assms obtain s0 where o: "open_writer_named f ?new = Inr s0"
    and ix: "index curr0 (append_all kvs s0) = Inr s"
    by (auto simp: build_def split: sum.splits)
  from o have "record_size s0 = record_size ?new \<and> nullvalue s0 = nullvalue ?new"
    by (auto simp: open_writer_named_def open_writer_def set_base_filename_def
        split: option.splits if_splits)
  moreover have "record_size ?new = sizeof_Key (max_key ?new) + sizeof_Value ?new"
    by (rule layout_new)
  ultimately have "record_size s0 = sizeof_Key (max_key s0) + sizeof_Value s0"
    by (simp add: sizeof_Value_def sizeof_Key_any [of "max_key s0" "max_key ?new"])
  then have s0: "record_size s0 = sizeof_Key (max_key s) + length (nullvalue s0)"
    by (simp add: sizeof_Value_def sizeof_Key_any [of "max_key s" "max_key s0"])
  from index_establishes [OF ix] append_all_frame [of kvs s0]
  have e: "indexed s" "reader s \<noteq> None" "record_size s = record_size s0"
    "nullvalue s = nullvalue s0" "length (data_file s) mod record_size s = 0"
    "length (key_cbv s) * record_size s = length (data_file s)"
    by auto
  from e(3,4) s0 have "record_size s = sizeof_Key (max_key s) + sizeof_Value s"
    by (simp only: sizeof_Value_def)
  moreover from e(6) have "length (key_cbv s) * record_size s \<le> length (data_file s)"
    by (rule eq_refl)
  ultimately show ?thesis
    using e(1,2,5) by blast
qed

subsection \<open>Where the build steps can fail\<close>

lemma block_fits:
  assumes "i < n" and "rs dvd i" and "0 < (rs :: nat)"
  shows "i + rs \<le> n * rs"
proof -
  from assms(2) obtain t where t: "i = rs * t"
    by (rule dvdE)
  from assms(3) have "t \<le> rs * t"
    by (cases rs) simp_all
  also from assms(1) have "rs * t < n"
    by (simp only: t)
  finally have "t < n" .
  then have "Suc t \<le> n"
    by simp
  then have "Suc t * rs \<le> n * rs"
    by (rule mult_le_mono1)
  with t show ?thesis
    by (simp add: mult.commute)
qed


text \<open>The reads of the loop of \<open>pad\<close> stay inside the file.\<close>

lemma pad_loop_reads:
  assumes "reader s = Some i" and "record_size s dvd i"
    and "record_size s = sizeof_Key (max_key s) + sizeof_Value s"
    and "length (data_file s) = n * record_size s"
  shows "pad_loop i n prev missing s \<noteq> Inl e"
  using assms
proof (induction i n prev missing s rule: pad_loop.induct)
  case (1 i n prev missing s)
  show ?case
  proof (cases "i < n \<and> 0 < record_size s")
    case False
    then show ?thesis
      by (auto simp: pad_loop.simps [of i])
  next
    case True
    with "1.prems"(2,4) have fits: "i + record_size s \<le> length (data_file s)"
      by (simp add: block_fits)
    let ?ks = "sizeof_Key (max_key s)"
    let ?s1 = "s\<lparr>reader := Some (i + ?ks)\<rparr>"
    let ?s2 = "s\<lparr>reader := Some (i + record_size s)\<rparr>"
    let ?kb = "take ?ks (drop i (data_file s))"
    let ?v = "take (sizeof_Value s) (drop (i + ?ks) (data_file s))"
    have r1: "read_bytes ?ks s = Some (?kb, ?s1)"
      using "1.prems"(1,3) fits by (simp add: read_bytes_def)
    have r2: "read_bytes (sizeof_Value ?s1) ?s1 = Some (?v, ?s2)"
      using "1.prems"(3) fits by (simp add: read_bytes_def sizeof_Value_def add.assoc)
    obtain p' m' s3 where g: "pad_gap prev (key_of_bytes ?kb) missing ?s2 = (p', m', s3)"
      by (cases "pad_gap prev (key_of_bytes ?kb) missing ?s2")
    let ?s4 = "append_record (key_of_bytes ?kb) ?v s3"
    from pad_gap_frame [OF g]
    have f: "data_file ?s4 = data_file s" "record_size ?s4 = record_size s"
      "nullvalue ?s4 = nullvalue s" "reader ?s4 = Some (i + record_size s)"
      by (simp_all add: append_record_def)
    have "pad_loop (i + record_size s) n (key_of_bytes ?kb) m' ?s4 \<noteq> Inl e"
    proof (rule "1.IH" [OF True r1 refl r2 refl g [symmetric] refl])
      show "reader ?s4 = Some (i + record_size s)"
        by (rule f)
      show "record_size ?s4 dvd i + record_size s"
        using "1.prems"(2) f(2) by simp
      have "sizeof_Key (max_key ?s4) = sizeof_Key (max_key s)"
        by (rule sizeof_Key_any)
      with "1.prems"(3) f(2,3)
      show "record_size ?s4 = sizeof_Key (max_key ?s4) + sizeof_Value ?s4"
        by (simp only: sizeof_Value_def)
      show "length (data_file ?s4) = n * record_size ?s4"
        using "1.prems"(4) f(1,2) by simp
    qed
    with True r1 r2 g show ?thesis
      by (simp add: pad_loop.simps [of i])
  qed
qed

text \<open>
  The reads of the loop of \<open>index\<close> stay inside the file: pass \<open>t\<close> has the counter
  \<open>1 + t * record_size\<close> and reads the bytes from \<open>sizeof(Key) * (t + 1)\<close> on.
\<close>

lemma index_loop_reads:
  assumes "reader s = Some (sizeof_Key (max_key s) * Suc t)"
    and "i = Suc (t * record_size s)"
    and "sizeof_Key (max_key s) \<le> record_size s"
    and "length (data_file s) = n * record_size s"
  shows "index_loop i n last_key cur key_bv s \<noteq> Inl e"
  using assms
proof (induction i n last_key cur key_bv s arbitrary: t rule: index_loop.induct)
  case (1 i n last_key cur key_bv s)
  let ?ks = "sizeof_Key (max_key s)"
  show ?case
  proof (cases "i < n \<and> 0 < record_size s")
    case False
    then show ?thesis
      by (auto simp: index_loop.simps [of i])
  next
    case True
    from True have "t \<le> t * record_size s"
      by (cases "record_size s") simp_all
    then have "Suc (Suc t) \<le> Suc (Suc (t * record_size s))"
      by simp
    also from True "1.prems"(2) have "\<dots> \<le> n"
      by simp
    finally have "Suc (Suc t) \<le> n" .
    then have "?ks * Suc (Suc t) \<le> ?ks * n"
      by (rule mult_le_mono2)
    also from "1.prems"(3) have "\<dots> \<le> n * record_size s"
      by (simp add: mult.commute mult_le_mono1)
    finally have fits: "?ks * Suc t + ?ks \<le> length (data_file s)"
      using "1.prems"(4) by simp
    let ?s1 = "s\<lparr>reader := Some (?ks * Suc (Suc t))\<rparr>"
    let ?kb = "take ?ks (drop (?ks * Suc t) (data_file s))"
    have r1: "read_bytes ?ks s = Some (?kb, ?s1)"
      using "1.prems"(1) fits by (simp add: read_bytes_def)
    have pre: "reader ?s1 = Some (sizeof_Key (max_key ?s1) * Suc (Suc t))"
      "i + record_size s = Suc (Suc t * record_size ?s1)"
      "sizeof_Key (max_key ?s1) \<le> record_size ?s1"
      "length (data_file ?s1) = n * record_size ?s1"
      using "1.prems" by simp_all
    show ?thesis
    proof (cases "key_of_bytes ?kb \<noteq> last_key")
      case differ: True
      from "1.IH"(1) [OF True r1 refl differ pre]
      show ?thesis
        using True r1 differ by (simp add: index_loop.simps [of i])
    next
      case same: False
      from "1.IH"(2) [OF True r1 refl same pre]
      show ?thesis
        using True r1 same by (simp add: index_loop.simps [of i])
    qed
  qed
qed


text \<open>
  With the record layout of the constructor, \<open>pad\<close> fails by a failed assertion only, and
  \<open>index\<close> by a failed assertion or, on an empty data file, at its first read.
\<close>

lemma pad_fails_by_assert:
  assumes layout: "record_size s = sizeof_Key (max_key s) + sizeof_Value s"
    and fails: "pad s = Inl e"
  shows "e = AssertionFailed"
proof (rule ccontr)
  assume e: "e \<noteq> AssertionFailed"
  have pos: "0 < record_size s"
    using layout sizeof_Key_pos [of "max_key s"] by simp
  from fails e have srt: "is_sorted s"
    by (auto simp: pad_def split: if_splits)
  from fails e srt obtain s1 where o1: "open_reader s = Inr s1"
    by (auto simp: pad_def open_reader_def split: option.splits if_splits)
  from fails e srt o1 obtain s2 where o2: "open_writer s1 = Inr s2"
    by (auto simp: pad_def open_writer_def split: option.splits if_splits)
  have s2: "record_size s2 = record_size s" "nullvalue s2 = nullvalue s" "reader s2 = Some 0"
    using o1 o2 by (auto simp: open_reader_def open_writer_def split: option.splits if_splits)
  from fails e srt o1 o2 s2 pos obtain n s3 where rc: "record_count s2 = Inr (n, s3)"
    by (auto simp: pad_def record_count_def open_reader_def split: option.splits if_splits)
  note f3 = record_count_frame [OF rc]
  have "sizeof_Key (max_key s3) = sizeof_Key (max_key s)"
    by (rule sizeof_Key_any)
  with layout s2 f3 have l3: "record_size s3 = sizeof_Key (max_key s3) + sizeof_Value s3"
    by (simp add: sizeof_Value_def)
  have "pad_loop 0 n 0 False s3 \<noteq> Inl e'" for e'
    using f3 l3 by (intro pad_loop_reads) (simp_all add: mult.commute)
  then obtain m s4 where pl: "pad_loop 0 n 0 False s3 = Inr (m, s4)"
    by (cases "pad_loop 0 n 0 False s3") auto
  from pad_loop_frame [OF pl] f3 s2 o1 pos
  have "record_size s4 \<noteq> 0" "filename s4 = filename s3"
    by simp_all
  moreover from o1 o2 f3 have "filename s3 = filename s"
    by (auto simp: open_reader_def open_writer_def split: option.splits if_splits)
  ultimately have "sort_file s4 = Inl e \<Longrightarrow> e = AssertionFailed"
    by (auto simp: sort_file_def Let_def close_writer_def close_reader_def
        split: if_splits option.splits)
  with fails srt o1 o2 rc pl e show False
    by (auto simp: pad_def split: if_splits)
qed

lemma index_fails_by_assert_or_empty:
  assumes layout: "record_size s = sizeof_Key (max_key s) + sizeof_Value s"
    and fails: "index curr0 s = Inl e"
  shows "e = AssertionFailed \<or>
         (e = ReadFailed \<and> (\<exists>s2. and_then (sort_file s) pad = Inr s2 \<and> data_file s2 = []))"
proof (rule ccontr)
  assume neg: "\<not> ?thesis"
  then have e: "e \<noteq> AssertionFailed"
    by simp
  have pos: "0 < record_size s"
    using layout sizeof_Key_pos [of "max_key s"] by simp
  from fails e pos obtain s1 where a1: "sort_file s = Inr s1"
    by (auto simp: index_def sort_file_def Let_def close_writer_def close_reader_def
        split: if_splits sum.splits option.splits)
  from sort_file_frame [OF a1] layout
  have l1: "record_size s1 = sizeof_Key (max_key s1) + sizeof_Value s1"
    by (simp add: sizeof_Value_def sizeof_Key_any [of "max_key s1" "max_key s"])
  from fails e a1 pad_fails_by_assert [OF l1] obtain s2 where a2: "pad s1 = Inr s2"
    by (cases "pad s1") (auto simp: index_def)
  from pad_frame [OF a2] l1
  have l2: "record_size s2 = sizeof_Key (max_key s2) + sizeof_Value s2"
    by (simp add: sizeof_Value_def sizeof_Key_any [of "max_key s2" "max_key s1"])
  then have pos2: "0 < record_size s2"
    using sizeof_Key_pos [of "max_key s2"] by simp
  from fails e a1 a2 obtain s3 where a3: "open_reader s2 = Inr s3"
    by (auto simp: index_def open_reader_def split: option.splits if_splits)
  then have s3: "record_size s3 = record_size s2" "data_file s3 = data_file s2"
    "nullvalue s3 = nullvalue s2"
    by (auto simp: open_reader_def split: option.splits if_splits)
  from fails e a1 a2 a3 s3 pos2 obtain n s4 where a4: "record_count s3 = Inr (n, s4)"
    by (auto simp: index_def record_count_def open_reader_def split: option.splits if_splits)
  note f4 = record_count_frame [OF a4]
  let ?ks = "sizeof_Key (max_key s4)"
  have ks: "?ks \<le> record_size s4" "0 < ?ks"
    using l2 s3 f4 sizeof_Key_any [of "max_key s4" "max_key s2"] sizeof_Key_pos [of "max_key s4"]
    by simp_all
  have and2: "and_then (sort_file s) pad = Inr s2"
    using a1 a2 by (simp add: and_then_def)
  show False
  proof (cases "n = 0")
    case True
    with f4 s3 have "data_file s2 = []"
      by simp
    moreover from True f4 ks have "read_bytes ?ks s4 = None"
      by (simp add: read_bytes_def)
    with fails a1 a2 a3 a4 have "e = ReadFailed"
      by (simp add: index_def)
    ultimately show False
      using neg and2 by simp
  next
    case False
    then have "1 * record_size s4 \<le> n * record_size s4"
      by (intro mult_le_mono1) simp
    with ks f4 have fits: "?ks \<le> length (data_file s4)"
      by simp
    let ?s5 = "s4\<lparr>reader := Some ?ks\<rparr>"
    let ?kb = "take ?ks (data_file s4)"
    have r: "read_bytes ?ks s4 = Some (?kb, ?s5)"
      using f4 fits by (simp add: read_bytes_def)
    have "index_loop 1 n (key_of_bytes ?kb) curr0 ((replicate n False)[0 := True]) ?s5 \<noteq> Inl e'"
      for e'
      using ks f4 by (intro index_loop_reads [where t = 0]) (simp_all add: mult.commute)
    with fails a1 a2 a3 a4 r False show False
      by (auto simp: index_def split: sum.splits)
  qed
qed

subsection \<open>Queries\<close>

text \<open>\<open>select_1\<close> returns the position of a set bit with \<open>r\<close> set bits before it.\<close>

lemma select_1_less: "select_1 bv r = Some p \<Longrightarrow> p < length bv"
  by (induction bv arbitrary: r p) (auto split: if_splits nat.splits)

lemma select_1_set: "select_1 bv r = Some p \<Longrightarrow> bv ! p \<and> length (filter id (take p bv)) = r"
  by (induction bv arbitrary: r p) (auto split: if_splits nat.splits)

lemma nth_value_eq:
  assumes "reader s \<noteq> None"
    and "Suc n * record_size s \<le> length (data_file s)"
    and "record_size s = sizeof_Key (max_key s) + sizeof_Value s"
  shows "nth_value n s = Inr (record_value s n, s\<lparr>reader := Some (Suc n * record_size s)\<rparr>)"
  using assms
  by (auto simp: nth_value_def read_bytes_def seekg_def record_value_def sizeof_Value_def
      split: option.splits)

declare values_loop.simps [simp del]

lemma values_loop_values:
  assumes "reader s \<noteq> None"
    and "j * record_size s \<le> length (data_file s)"
    and "record_size s = sizeof_Key (max_key s) + sizeof_Value s"
  shows "map_sum id fst (values_loop i j vals s) = Inr (vals @ map (record_value s) [i..<j])"
  using assms
proof (induction i j vals s rule: values_loop.induct)
  case (1 i j vals s)
  show ?case
  proof (cases "i < j")
    case False
    then show ?thesis by (simp add: values_loop.simps [of i])
  next
    case True
    let ?s1 = "s\<lparr>reader := Some (Suc i * record_size s)\<rparr>"
    from True have "Suc i * record_size s \<le> j * record_size s"
      by (simp add: Suc_leI mult_le_mono1 del: mult_Suc)
    with "1.prems" have nv: "nth_value i s = Inr (record_value s i, ?s1)"
      by (intro nth_value_eq) auto
    have same: "record_value ?s1 = record_value s"
      by (rule ext) (simp add: record_value_def sizeof_Value_def)
    have step: "values_loop i j vals s = values_loop (Suc i) j (vals @ [record_value s i]) ?s1"
      using True nv by (simp add: values_loop.simps [of i])
    have "map_sum id fst (values_loop (Suc i) j (vals @ [record_value s i]) ?s1)
            = Inr ((vals @ [record_value s i]) @ map (record_value ?s1) [Suc i..<j])"
      using "1.prems" by (intro "1.IH" [OF True nv]) (auto simp: sizeof_Value_def)
    also have "\<dots> = Inr (vals @ map (record_value s) [i..<j])"
      using True by (simp only: same) (simp add: upt_conv_Cons)
    finally show ?thesis
      by (simp only: step)
  qed
qed

lemma values_of_range:
  assumes open_ok: "reader s = None \<longrightarrow> filename s \<noteq> []"
    and rs: "record_size s = sizeof_Key (max_key s) + sizeof_Value s"
    and whole: "\<not> key < max_key s \<longrightarrow> length (data_file s) mod record_size s = 0"
    and jle: "j * record_size s \<le> length (data_file s)"
    and i: "select_1 (key_cbv s) (unat key) = Some i"
    and j: "if key < max_key s then select_1 (key_cbv s) (unat key + 1) = Some j
            else j = length (data_file s) div record_size s"
  shows "map_sum id fst (values_of key s) = Inr (map (record_value s) [i..<j])"
proof -
  obtain s1 where s1: "(if reader s = None then open_reader s else Inr s) = Inr s1"
    and r1: "reader s1 \<noteq> None"
    and eq1: "data_file s1 = data_file s" "record_size s1 = record_size s"
       "max_key s1 = max_key s" "nullvalue s1 = nullvalue s" "key_cbv s1 = key_cbv s"
    using open_ok by (cases "reader s") (auto simp: open_reader_def)
  have pos: "0 < record_size s"
    using rs sizeof_Key_pos [of "max_key s"] by simp
  have rv: "record_value s1 = record_value s"
    using eq1 by (intro ext) (simp add: record_value_def sizeof_Value_def)
  show ?thesis
  proof (cases "key < max_key s")
    case True
    with j have sj: "select_1 (key_cbv s) (unat key + 1) = Some j"
      by simp
    from jle have "j * record_size s1 \<le> length (data_file s1)"
      by (simp only: eq1)
    with r1 rs eq1
    have "map_sum id fst (values_loop i j [] s1) = Inr ([] @ map (record_value s1) [i..<j])"
      by (intro values_loop_values) (auto simp: sizeof_Value_def)
    with True s1 i sj eq1 rv show ?thesis
      by (simp add: values_of_def key_cbv_select_def)
  next
    case False
    with j have jv: "j = length (data_file s) div record_size s"
      by simp
    from False whole have whole': "length (data_file s) mod record_size s = 0"
      by simp
    obtain s2 where rc: "record_count s1 = Inr (j, s2)" and r2: "reader s2 \<noteq> None"
      and eq2: "data_file s2 = data_file s" "record_size s2 = record_size s"
        "max_key s2 = max_key s" "nullvalue s2 = nullvalue s"
      using r1 eq1 pos whole' jv
      by (auto simp: record_count_def open_reader_def split: option.splits)
    have rv2: "record_value s2 = record_value s"
      using eq2 by (intro ext) (simp add: record_value_def sizeof_Value_def)
    have "j * record_size s2 \<le> length (data_file s2)"
      using jv eq2 by simp
    with r2 rs eq2
    have "map_sum id fst (values_loop i j [] s2) = Inr ([] @ map (record_value s2) [i..<j])"
      by (intro values_loop_values) (auto simp: sizeof_Value_def)
    with False s1 i rc eq1 rv2 show ?thesis
      by (simp add: values_of_def key_cbv_select_def)
  qed
qed


text \<open>
  \<open>values\<close> itself computes the range of the spec. On an instance with the record layout of
  the constructor, a data file of whole records and a key-starts vector no longer than the
  file has records (as \<open>index\<close> leaves it, lemmas \<open>index_establishes\<close> and \<open>build_ready\<close>),
  for a key in \<open>[0, max_key]\<close> whose select queries have answers, it returns the values of the
  records \<open>[i, j)\<close> in file order, where \<open>i = select(key)\<close>, and \<open>j = select(key+1)\<close> when
  \<open>key < max_key\<close>, and \<open>j = record_count()\<close> when \<open>key = max_key\<close>.
\<close>

lemma values_range:
  assumes "reader s = None \<longrightarrow> filename s \<noteq> []"
    and "record_size s = sizeof_Key (max_key s) + sizeof_Value s"
    and "length (data_file s) mod record_size s = 0"
    and "length (key_cbv s) * record_size s \<le> length (data_file s)"
    and "key \<le> max_key s"
    and "select_1 (key_cbv s) (unat key) = Some i"
    and "if key < max_key s then select_1 (key_cbv s) (unat key + 1) = Some j
         else j = length (data_file s) div record_size s"
  shows "map_sum id fst (values_of key s) = Inr (map (record_value s) [i..<j])"
proof -
  have "j * record_size s \<le> length (data_file s)"
  proof (cases "key < max_key s")
    case True
    with assms(7) have "j < length (key_cbv s)"
      by (simp add: select_1_less)
    then have "j * record_size s \<le> length (key_cbv s) * record_size s"
      by (intro mult_le_mono1) simp
    from this assms(4) show ?thesis
      by (rule le_trans)
  next
    case False
    with assms(7) show ?thesis
      by simp
  qed
  with assms(1,2,3) show ?thesis
    using assms(6,7) by (intro values_of_range) simp_all
qed

lemma values_range_indexed_3:
  "map_sum id fst (values_of 0 indexed_3) = Inr [[0], [0], [7]] \<and>
   map_sum id fst (values_of 1 indexed_3) = Inr [[7]]"
proof -
  have h1: "reader indexed_3 = None \<longrightarrow> filename indexed_3 \<noteq> []"
    and h2: "record_size indexed_3 = sizeof_Key (max_key indexed_3) + sizeof_Value indexed_3"
    and h3: "length (data_file indexed_3) mod record_size indexed_3 = 0"
    and h4: "length (key_cbv indexed_3) * record_size indexed_3 \<le> length (data_file indexed_3)"
    by code_simp+
  have k0: "0 \<le> max_key indexed_3" and k1: "1 \<le> max_key indexed_3"
    by code_simp+
  have i0: "select_1 (key_cbv indexed_3) (unat (0 :: 8 word)) = Some 0"
    and i1: "select_1 (key_cbv indexed_3) (unat (1 :: 8 word)) = Some 3"
    by code_simp+
  have j0: "if 0 < max_key indexed_3
            then select_1 (key_cbv indexed_3) (unat (0 :: 8 word) + 1) = Some 3
            else 3 = length (data_file indexed_3) div record_size indexed_3"
    and j1: "if 1 < max_key indexed_3
            then select_1 (key_cbv indexed_3) (unat (1 :: 8 word) + 1) = Some 4
            else 4 = length (data_file indexed_3) div record_size indexed_3"
    by code_simp+
  have r0: "map (record_value indexed_3) [0..<3] = [[0], [0], [7]]"
    and r1: "map (record_value indexed_3) [3..<4] = [[7]]"
    by code_simp+
  show ?thesis
    using values_range [OF h1 h2 h3 h4 k0 i0 j0] values_range [OF h1 h2 h3 h4 k1 i1 j1]
    by (simp only: r0 r1)
qed

text \<open>
  C5. On every indexed instance and for every key in \<open>[0, max_key]\<close>, \<open>values(key)\<close> returns
  the values of the records \<open>[select(key), select(key+1))\<close>, or up to \<open>record_count()\<close> for
  \<open>key = max_key\<close>.
  The code does not provide this: \<open>index\<close> leaves a \<open>max_key\<close> and a key-starts vector that do
  not fit each other. After appending (0, 5), (1, 6), (2, 7) the instance is indexed with
  \<open>max_key = 5\<close> and the vector 1, 1, 0; \<open>values(1)\<close> asks for the set bit 2 and \<open>values(2)\<close>
  for the set bits 2 and 3, which the vector does not have.
\<close>

theorem values_select_missing:
  "map_sum id (\<lambda>s. (indexed s, max_key s, key_cbv s))
      (build ''f'' 0 [255] 9 [(0 :: 8 word, [5]), (1, [6]), (2, [7])])
     = Inr (True, 5, [True, True, False]) \<and>
   map_sum id fst
      (and_then (build ''f'' 0 [255] 9 [(0 :: 8 word, [5]), (1, [6]), (2, [7])]) (values_of 1))
     = Inl SelectOutOfRange \<and>
   map_sum id fst
      (and_then (build ''f'' 0 [255] 9 [(0 :: 8 word, [5]), (1, [6]), (2, [7])]) (values_of 2))
     = Inl SelectOutOfRange"
  by code_simp

subsection \<open>What values checks\<close>











end
